theory Spec2Isabelle
  imports Main
begin

section \<open>Python string and integer primitives\<close>

text \<open>
  \<open>ImageProcessor.calculate_similarity\<close> in \<open>backend/server.py\<close> is built from four
  Python built-ins: \<open>int(s, 16)\<close>, \<open>bin\<close>, slicing \<open>[2:]\<close> and \<open>str.zfill\<close>.
  They are modelled here on strings whose code points are below 256 (a HOL \<open>char\<close>
  is one such code point, so \<open>length\<close> is Python's \<open>len\<close>).
\<close>

text \<open>
  The characters \<open>int\<close> skips around a number: tab, line feed, vertical tab, form
  feed, carriage return, space, and (below 256) the two non-ASCII spaces U+0085 and U+00A0.
\<close>

definition py_isspace :: "char \<Rightarrow> bool" where
  "py_isspace c = ((of_char c :: nat) \<in> set [9, 10, 11, 12, 13, 32, 133, 160])"

text \<open>The value of a digit of base 16: \<open>0-9\<close>, \<open>a-f\<close>, \<open>A-F\<close>.\<close>

definition hex_digit_value :: "char \<Rightarrow> nat option" where
  "hex_digit_value c =
     (let n = (of_char c :: nat) in
      if 48 \<le> n \<and> n \<le> 57 then Some (n - 48)
      else if 97 \<le> n \<and> n \<le> 102 then Some (n - 87)
      else if 65 \<le> n \<and> n \<le> 70 then Some (n - 55)
      else None)"

text \<open>
  After an optional sign, \<open>int(s, 16)\<close> accepts the prefix \<open>0x\<close> or \<open>0X\<close>, and one
  underscore after it.
\<close>

fun skip_0x :: "string \<Rightarrow> string" where
  "skip_0x (a # b # r) =
     (if a = CHR ''0'' \<and> (b = CHR ''x'' \<or> b = CHR ''X'')
      then (case r of [] \<Rightarrow> r | u # r' \<Rightarrow> if u = CHR ''_'' then r' else r)
      else a # b # r)"
| "skip_0x s = s"

text \<open>
  The digit loop: digits and single underscores are consumed, the value is accumulated
  from the digits. Two underscores in a row and an underscore at the end of the run are
  syntax errors (\<open>None\<close>). The first argument says whether the previous character was
  an underscore; the result is the value and the unread rest.
\<close>

fun scan_digits :: "bool \<Rightarrow> nat \<Rightarrow> string \<Rightarrow> (nat \<times> string) option" where
  "scan_digits pu acc [] = (if pu then None else Some (acc, []))"
| "scan_digits pu acc (c # cs) =
     (if c = CHR ''_'' then (if pu then None else scan_digits True acc cs)
      else case hex_digit_value c of
             Some d \<Rightarrow> scan_digits False (16 * acc + d) cs
           | None \<Rightarrow> if pu then None else Some (acc, c # cs))"

text \<open>
  \<open>int(s, 16)\<close>; \<open>None\<close> is \<open>ValueError\<close>. Leading spaces, a sign, the prefix, the
  digit run (which may not start with an underscore and may not be empty), trailing
  spaces, and nothing else.
\<close>

definition py_int16 :: "string \<Rightarrow> int option" where
  "py_int16 s =
     (let s1 = dropWhile py_isspace s;
          neg = (case s1 of [] \<Rightarrow> False | c # _ \<Rightarrow> c = CHR ''-'');
          s2 = (case s1 of [] \<Rightarrow> s1
                | c # r \<Rightarrow> if c = CHR ''+'' \<or> c = CHR ''-'' then r else s1);
          s3 = skip_0x s2
      in case s3 of
           [] \<Rightarrow> None
         | c # _ \<Rightarrow>
             if c = CHR ''_'' then None
             else (case scan_digits False 0 s3 of
                     None \<Rightarrow> None
                   | Some (v, rest) \<Rightarrow>
                       if rest = s3 then None
                       else if dropWhile py_isspace rest = []
                         then Some (if neg then - int v else int v)
                       else None))"

text \<open>The binary digits of a positive number, most significant first.\<close>

fun bin_digits :: "nat \<Rightarrow> string" where
  "bin_digits n =
     (if n = 0 then []
      else bin_digits (n div 2) @ [if n mod 2 = 0 then CHR ''0'' else CHR ''1''])"

declare bin_digits.simps [simp del]

text \<open>\<open>bin(n)\<close>: \<open>0b\<close> and the digits, with a minus sign in front for a negative number.\<close>

definition py_bin :: "int \<Rightarrow> string" where
  "py_bin n =
     (if n < 0 then ''-0b'' else ''0b'') @
     (if n = 0 then ''0'' else bin_digits (nat \<bar>n\<bar>))"

text \<open>
  \<open>s.zfill(width)\<close>: zeros are put in front until the string has \<open>width\<close> characters,
  after a leading sign if there is one.
\<close>

definition py_zfill :: "nat \<Rightarrow> string \<Rightarrow> string" where
  "py_zfill width s =
     (if width \<le> length s then s
      else case s of
             [] \<Rightarrow> replicate width (CHR ''0'')
           | c # r \<Rightarrow>
               if c = CHR ''+'' \<or> c = CHR ''-''
               then c # replicate (width - length s) (CHR ''0'') @ r
               else replicate (width - length s) (CHR ''0'') @ s)"

section \<open>The distance function\<close>

text \<open>
  \<open>ImageProcessor.calculate_similarity(hash1, hash2)\<close>. The two \<open>int\<close> calls are inside
  the \<open>try\<close>; either raising \<open>ValueError\<close> gives 64.
\<close>

definition to_bin :: "string \<Rightarrow> string option" where
  "to_bin h =
     (case py_int16 h of
        None \<Rightarrow> None
      | Some v \<Rightarrow> Some (py_zfill (length h * 4) (drop 2 (py_bin v))))"

definition count_diff :: "'a list \<Rightarrow> 'a list \<Rightarrow> nat" where
  "count_diff bin1 bin2 = length (filter (\<lambda>(b1, b2). b1 \<noteq> b2) (zip bin1 bin2))"

definition calculate_similarity :: "string \<Rightarrow> string \<Rightarrow> int" where
  "calculate_similarity hash1 hash2 =
     (if length hash1 \<noteq> length hash2 then 64
      else case to_bin hash1 of
             None \<Rightarrow> 64
           | Some bin1 \<Rightarrow>
               (case to_bin hash2 of
                  None \<Rightarrow> 64
                | Some bin2 \<Rightarrow> int (count_diff bin1 bin2)))"

subsection \<open>The distance as the specification words it\<close>

text \<open>
  A hash code of \<open>n\<close> hexadecimal digits is decoded digit by digit to a sequence of
  \<open>4n\<close> bits; a code that is empty or has a character that is not a hexadecimal digit
  does not parse. The distance of two codes is 64 when their lengths differ or one of
  them does not parse, and the number of positions where the bit sequences differ
  otherwise.
\<close>

definition spec_nibble :: "nat \<Rightarrow> bool list" where
  "spec_nibble d = [d div 8 mod 2 = 1, d div 4 mod 2 = 1, d div 2 mod 2 = 1, d mod 2 = 1]"

fun spec_decode :: "string \<Rightarrow> bool list option" where
  "spec_decode [] = Some []"
| "spec_decode (c # cs) =
     (case hex_digit_value c of
        None \<Rightarrow> None
      | Some d \<Rightarrow> (case spec_decode cs of None \<Rightarrow> None | Some bs \<Rightarrow> Some (spec_nibble d @ bs)))"

definition spec_hex_bits :: "string \<Rightarrow> bool list option" where
  "spec_hex_bits h = (if h = [] then None else spec_decode h)"

fun spec_hamming :: "bool list \<Rightarrow> bool list \<Rightarrow> nat" where
  "spec_hamming (x # xs) (y # ys) = (if x = y then 0 else 1) + spec_hamming xs ys"
| "spec_hamming _ _ = 0"

definition spec_distance :: "string \<Rightarrow> string \<Rightarrow> int" where
  "spec_distance a b =
     (if length a \<noteq> length b then 64
      else case (spec_hex_bits a, spec_hex_bits b) of
             (Some xs, Some ys) \<Rightarrow> int (spec_hamming xs ys)
           | _ \<Rightarrow> 64)"

section \<open>The external libraries\<close>

text \<open>
  Content sniffing (\<open>magic\<close>), decoding and resizing (\<open>PIL\<close>), perceptual hashing
  (\<open>imagehash\<close>) and \<open>hashlib.sha256\<close> are libraries outside the repository. The
  model takes them as a record of functions over an arbitrary type \<open>'img\<close> of decoded
  images. A library call that raises returns \<open>None\<close>, or \<open>Inl msg\<close> where the
  message of the exception is used by the caller.
\<close>

type_synonym bytes = "char list"
type_synonym datetime = nat

datatype algorithm = Dhash | Phash | Ahash | Whash

record 'img libs =
  magic_from_buffer :: "bytes \<Rightarrow> string option"
  image_open :: "bytes \<Rightarrow> string + 'img"
  image_mode :: "'img \<Rightarrow> string"
  image_convert_rgb :: "'img \<Rightarrow> string + 'img"
  image_size_of :: "'img \<Rightarrow> nat \<times> nat"
  image_thumbnail :: "'img \<Rightarrow> string + 'img"
  imagehash_str :: "algorithm \<Rightarrow> 'img \<Rightarrow> string + string"
  sha256_hexdigest :: "bytes \<Rightarrow> string"

section \<open>ImageProcessor\<close>

datatype http_error = HTTPException (status_code: nat) (detail: string)

record upload_file =
  filename :: "string option"
  content :: bytes

record 'img result =
  res_image :: 'img
  hashes :: "algorithm \<rightharpoonup> string"
  res_file_hash :: string
  res_content_type :: string
  res_file_size :: nat
  image_size :: "nat \<times> nat"

definition max_dimension :: nat where
  "max_dimension = 2048"

definition max_file_size :: nat where
  "max_file_size = 10 * 1024 * 1024"

definition allowed_mime_types :: "string list" where
  "allowed_mime_types =
     [''image/jpeg'', ''image/png'', ''image/gif'', ''image/bmp'', ''image/webp'']"

text \<open>
  \<open>compute_hashes\<close>: the four hashes in the order \<open>ahash\<close>, \<open>phash\<close>, \<open>dhash\<close>,
  \<open>whash\<close>; the first call that raises ends the computation.
\<close>

definition compute_hashes :: "'img libs \<Rightarrow> 'img \<Rightarrow> string + (algorithm \<rightharpoonup> string)" where
  "compute_hashes L img =
     (case imagehash_str L Ahash img of Inl e \<Rightarrow> Inl e | Inr a \<Rightarrow>
      case imagehash_str L Phash img of Inl e \<Rightarrow> Inl e | Inr p \<Rightarrow>
      case imagehash_str L Dhash img of Inl e \<Rightarrow> Inl e | Inr d \<Rightarrow>
      case imagehash_str L Whash img of Inl e \<Rightarrow> Inl e | Inr w \<Rightarrow>
        Inr [Ahash \<mapsto> a, Phash \<mapsto> p, Dhash \<mapsto> d, Whash \<mapsto> w])"

text \<open>
  The second \<open>try\<close> block of \<open>validate_and_process_image\<close>: open, convert to RGB,
  shrink, hash, digest. \<open>Inl msg\<close> is an exception with message \<open>msg\<close>.
\<close>

definition load_image :: "'img libs \<Rightarrow> bytes \<Rightarrow> string \<Rightarrow> string + 'img result" where
  "load_image L cont detected_type =
     (case image_open L cont of Inl e \<Rightarrow> Inl e | Inr img0 \<Rightarrow>
      case (if image_mode L img0 \<noteq> ''RGB'' then image_convert_rgb L img0 else Inr img0) of
        Inl e \<Rightarrow> Inl e | Inr img1 \<Rightarrow>
      case (if max (fst (image_size_of L img1)) (snd (image_size_of L img1)) > max_dimension
            then image_thumbnail L img1 else Inr img1) of
        Inl e \<Rightarrow> Inl e | Inr img2 \<Rightarrow>
      case compute_hashes L img2 of Inl e \<Rightarrow> Inl e | Inr hs \<Rightarrow>
        Inr \<lparr> res_image = img2,
              hashes = hs,
              res_file_hash = sha256_hexdigest L cont,
              res_content_type = detected_type,
              res_file_size = length cont,
              image_size = image_size_of L img2 \<rparr>)"

text \<open>
  \<open>validate_and_process_image\<close>. The \<open>HTTPException\<close> raised for an unsupported type
  is raised inside the \<open>try\<close> whose handler catches every \<open>Exception\<close>, so it leaves
  the function as the handler's exception.
\<close>

definition validate_and_process_image ::
    "'img libs \<Rightarrow> upload_file \<Rightarrow> http_error + 'img result" where
  "validate_and_process_image L file =
     (let cont = content file in
      if length cont > max_file_size
        then Inl (HTTPException 413 ''File too large (max 10MB)'')
      else case magic_from_buffer L cont of
        None \<Rightarrow> Inl (HTTPException 400 ''Unable to determine file type'')
      | Some detected_type \<Rightarrow>
          if detected_type \<notin> set allowed_mime_types
            then Inl (HTTPException 400 ''Unable to determine file type'')
          else (case load_image L cont detected_type of
                  Inl e \<Rightarrow> Inl (HTTPException 400 (''Invalid image file: '' @ e))
                | Inr r \<Rightarrow> Inr r))"

section \<open>The collection of image links\<close>

text \<open>
  A stored document. The four hash keys are optional in the model, as the scan asks
  whether a document has them; \<open>updated_at\<close> is absent until the first update.
\<close>

record image_link =
  link_id :: string
  link_filename :: string
  url :: string
  file_hash :: string
  ahash :: "string option"
  phash :: "string option"
  dhash :: "string option"
  whash :: "string option"
  content_type :: string
  file_size :: nat
  image_width :: nat
  image_height :: nat
  created_at :: datetime
  updated_at :: "datetime option"

text \<open>
  The database: the documents of \<open>db.image_links\<close> in their natural order, and the
  write commands that were sent to it, oldest first.
\<close>

datatype db_write =
    InsertOne image_link
  | UpdateOne string string datetime
  | DeleteOne string

record db =
  image_links :: "image_link list"
  writes :: "db_write list"

definition empty_db :: db where
  "empty_db = \<lparr> image_links = [], writes = [] \<rparr>"

text \<open>\<open>find_one({"file_hash": h})\<close>: the first document with that hash.\<close>

definition find_one :: "string \<Rightarrow> db \<Rightarrow> image_link option" where
  "find_one h d = find (\<lambda>x. file_hash x = h) (image_links d)"

text \<open>\<open>update_one(filter, {"$set": ...})\<close> changes the first document that matches.\<close>

fun update_first :: "('a \<Rightarrow> bool) \<Rightarrow> ('a \<Rightarrow> 'a) \<Rightarrow> 'a list \<Rightarrow> 'a list" where
  "update_first P f [] = []"
| "update_first P f (x # xs) = (if P x then f x # xs else x # update_first P f xs)"

definition update_one :: "string \<Rightarrow> string \<Rightarrow> datetime \<Rightarrow> db \<Rightarrow> db" where
  "update_one h u now d =
     \<lparr> image_links =
         update_first (\<lambda>x. file_hash x = h) (\<lambda>x. x\<lparr>url := u, updated_at := Some now\<rparr>)
           (image_links d),
       writes = writes d @ [UpdateOne h u now] \<rparr>"

definition insert_one :: "image_link \<Rightarrow> db \<Rightarrow> db" where
  "insert_one x d = \<lparr> image_links = image_links d @ [x], writes = writes d @ [InsertOne x] \<rparr>"

text \<open>\<open>delete_one({"id": i})\<close>: the first match is removed; the result is the count.\<close>

fun remove_first :: "('a \<Rightarrow> bool) \<Rightarrow> 'a list \<Rightarrow> 'a list" where
  "remove_first P [] = []"
| "remove_first P (x # xs) = (if P x then xs else x # remove_first P xs)"

definition delete_one :: "string \<Rightarrow> db \<Rightarrow> nat \<times> db" where
  "delete_one i d =
     ((if find (\<lambda>x. link_id x = i) (image_links d) = None then 0 else 1),
      \<lparr> image_links = remove_first (\<lambda>x. link_id x = i) (image_links d),
        writes = writes d @ [DeleteOne i] \<rparr>)"

text \<open>\<open>find({}).to_list(1000)\<close>: at most 1000 documents, in natural order.\<close>

definition find_all :: "db \<Rightarrow> image_link list" where
  "find_all d = take 1000 (image_links d)"

section \<open>Linking an image to a URL\<close>

record link_response =
  status :: string
  message :: string
  image_id :: string
  resp_url :: string
  resp_hashes :: "(algorithm \<rightharpoonup> string) option"

text \<open>How an f-string prints \<open>file.filename\<close>, which may be \<open>None\<close>.\<close>

definition str_filename :: "string option \<Rightarrow> string" where
  "str_filename f = (case f of None \<Rightarrow> ''None'' | Some n \<Rightarrow> n)"

text \<open>\<open>file.filename or "unknown"\<close>\<close>

definition filename_or_unknown :: "string option \<Rightarrow> string" where
  "filename_or_unknown f =
     (case f of None \<Rightarrow> ''unknown'' | Some n \<Rightarrow> if n = [] then ''unknown'' else n)"

text \<open>
  \<open>link_image_to_url(url, file)\<close>. \<open>new_id\<close> is what \<open>uuid.uuid4()\<close> returns in
  this call and \<open>now\<close> what \<open>datetime.utcnow()\<close> returns. An \<open>HTTPException\<close> of
  the validator is raised again as it is. The result is the response or the exception,
  and the database after the call.
\<close>

definition link_image_to_url ::
    "'img libs \<Rightarrow> string \<Rightarrow> datetime \<Rightarrow> string \<Rightarrow> upload_file \<Rightarrow> db
       \<Rightarrow> (http_error + link_response) \<times> db" where
  "link_image_to_url L new_id now u file d =
     (case validate_and_process_image L file of
        Inl e \<Rightarrow> (Inl e, d)
      | Inr result \<Rightarrow>
          (case find_one (res_file_hash result) d of
             Some existing \<Rightarrow>
               (Inr \<lparr> status = ''updated'',
                      message = ''Updated URL for existing image: '' @ str_filename (filename file),
                      image_id = link_id existing,
                      resp_url = u,
                      resp_hashes = None \<rparr>,
                update_one (res_file_hash result) u now d)
           | None \<Rightarrow>
               (let image_link =
                      \<lparr> link_id = new_id,
                        link_filename = filename_or_unknown (filename file),
                        url = u,
                        file_hash = res_file_hash result,
                        ahash = hashes result Ahash,
                        phash = hashes result Phash,
                        dhash = hashes result Dhash,
                        whash = hashes result Whash,
                        content_type = res_content_type result,
                        file_size = res_file_size result,
                        image_width = fst (image_size result),
                        image_height = snd (image_size result),
                        created_at = now,
                        updated_at = None \<rparr>
                in (Inr \<lparr> status = ''created'',
                           message = ''Successfully linked '' @ str_filename (filename file)
                                       @ '' to '' @ u,
                           image_id = link_id image_link,
                           resp_url = u,
                           resp_hashes = Some (hashes result) \<rparr>,
                    insert_one image_link d))))"

section \<open>Scanning an image\<close>

record match_info =
  match_id :: string
  match_filename :: string
  match_url :: string
  distance :: int
  similarity_percentage :: int
  algorithm_used :: algorithm
  match_created_at :: datetime

record scan_response =
  scan_status :: string
  scan_message :: string
  match :: "match_info option"
  redirect_url :: "string option"
  total_stored_images :: nat
  threshold_used :: "int option"

text \<open>\<open>stored_image[algorithm]\<close>; \<open>None\<close> when the document has no such key.\<close>

fun stored_hash :: "image_link \<Rightarrow> algorithm \<Rightarrow> string option" where
  "stored_hash x Dhash = dhash x"
| "stored_hash x Phash = phash x"
| "stored_hash x Ahash = ahash x"
| "stored_hash x Whash = whash x"

text \<open>
  The dictionary \<open>distances\<close> of one stored image, as the list of its items in
  insertion order: the algorithms are visited in the order \<open>dhash\<close>, \<open>phash\<close>,
  \<open>ahash\<close>, \<open>whash\<close>, and one gets an entry when both sides have a hash for it.
\<close>

definition distance_entry ::
    "(algorithm \<rightharpoonup> string) \<Rightarrow> image_link \<Rightarrow> algorithm \<Rightarrow> (algorithm \<times> int) option" where
  "distance_entry query_hashes stored_image alg =
     (case query_hashes alg of
        None \<Rightarrow> None
      | Some q \<Rightarrow>
          (case stored_hash stored_image alg of
             None \<Rightarrow> None
           | Some h \<Rightarrow> Some (alg, calculate_similarity q h)))"

definition distances_of :: "(algorithm \<rightharpoonup> string) \<Rightarrow> image_link \<Rightarrow> (algorithm \<times> int) list" where
  "distances_of query_hashes stored_image =
     List.map_filter (distance_entry query_hashes stored_image) [Dhash, Phash, Ahash, Whash]"

text \<open>\<open>min\<close> over a non-empty sequence: the first of the smallest items is kept.\<close>

fun py_min_from :: "int \<Rightarrow> int list \<Rightarrow> int" where
  "py_min_from best [] = best"
| "py_min_from best (x # xs) = py_min_from (if x < best then x else best) xs"

fun py_min_key_from :: "(algorithm \<times> int) \<Rightarrow> (algorithm \<times> int) list \<Rightarrow> algorithm \<times> int" where
  "py_min_key_from best [] = best"
| "py_min_key_from best (x # xs) = py_min_key_from (if snd x < snd best then x else best) xs"

text \<open>
  \<open>best_distance\<close> starts as \<open>float('inf')\<close>, here \<open>None\<close>; every integer is below it.
\<close>

definition below :: "int \<Rightarrow> int option \<Rightarrow> bool" where
  "below x best_distance = (case best_distance of None \<Rightarrow> True | Some b \<Rightarrow> x < b)"

definition make_match :: "image_link \<Rightarrow> int \<Rightarrow> algorithm \<Rightarrow> match_info" where
  "make_match stored_image min_distance alg =
     \<lparr> match_id = link_id stored_image,
       match_filename = link_filename stored_image,
       match_url = url stored_image,
       distance = min_distance,
       similarity_percentage = max 0 (100 - min_distance * 10),
       algorithm_used = alg,
       match_created_at = created_at stored_image \<rparr>"

text \<open>
  One turn of the loop over \<open>stored_images\<close>, on the pair \<open>(best_match, best_distance)\<close>.
  With an empty \<open>distances\<close> the turn does nothing; otherwise \<open>min_distance\<close> is
  \<open>min(distances.values())\<close> and the algorithm is \<open>min(distances, key=distances.get)\<close>.
\<close>

definition scan_step ::
    "(algorithm \<rightharpoonup> string) \<Rightarrow> int \<Rightarrow> image_link
       \<Rightarrow> match_info option \<times> int option \<Rightarrow> match_info option \<times> int option" where
  "scan_step query_hashes threshold stored_image st =
     (case distances_of query_hashes stored_image of
        [] \<Rightarrow> st
      | x # xs \<Rightarrow>
          (let min_distance = py_min_from (snd x) (map snd xs) in
           if min_distance \<le> threshold \<and> below min_distance (snd st)
             then (Some (make_match stored_image min_distance (fst (py_min_key_from x xs))),
                   Some min_distance)
           else st))"

definition scan_loop ::
    "(algorithm \<rightharpoonup> string) \<Rightarrow> int \<Rightarrow> image_link list \<Rightarrow> match_info option \<times> int option" where
  "scan_loop query_hashes threshold stored_images =
     fold (scan_step query_hashes threshold) stored_images (None, None)"

text \<open>\<open>scan_image_for_url(file, threshold)\<close>; it sends no write to the database.\<close>

definition scan_image_for_url ::
    "'img libs \<Rightarrow> upload_file \<Rightarrow> int \<Rightarrow> db \<Rightarrow> http_error + scan_response" where
  "scan_image_for_url L file threshold d =
     (case validate_and_process_image L file of
        Inl e \<Rightarrow> Inl e
      | Inr result \<Rightarrow>
          (let stored_images = find_all d in
           case fst (scan_loop (hashes result) threshold stored_images) of
             Some best_match \<Rightarrow>
               Inr \<lparr> scan_status = ''match_found'',
                     scan_message = ''Found matching image: '' @ match_filename best_match,
                     match = Some best_match,
                     redirect_url = Some (match_url best_match),
                     total_stored_images = length stored_images,
                     threshold_used = None \<rparr>
           | None \<Rightarrow>
               Inr \<lparr> scan_status = ''no_match'',
                     scan_message = ''No matching images found'',
                     match = None,
                     redirect_url = None,
                     total_stored_images = length stored_images,
                     threshold_used = Some threshold \<rparr>))"

subsection \<open>The selection as the specification words it\<close>

text \<open>
  The fingerprints of a stored document, read off its four fields; the algorithms present
  in both the query fingerprints and a stored document; the distance of the two hash
  codes for one of them; the minimum of these distances for a document; and the
  candidates of a scan: the fetched documents that share an algorithm with the query, in
  the order of the fetch.
\<close>

definition spec_fingerprints :: "image_link \<Rightarrow> (algorithm \<rightharpoonup> string)" where
  "spec_fingerprints x =
     (\<lambda>alg. if alg = Ahash then ahash x
            else if alg = Phash then phash x
            else if alg = Dhash then dhash x
            else whash x)"

definition spec_shared_algorithms :: "(algorithm \<rightharpoonup> string) \<Rightarrow> image_link \<Rightarrow> algorithm list" where
  "spec_shared_algorithms q x =
     filter (\<lambda>alg. q alg \<noteq> None \<and> spec_fingerprints x alg \<noteq> None)
       [Dhash, Phash, Ahash, Whash]"

definition spec_algorithm_distance :: "(algorithm \<rightharpoonup> string) \<Rightarrow> image_link \<Rightarrow> algorithm \<Rightarrow> int" where
  "spec_algorithm_distance q x alg =
     calculate_similarity (the (q alg)) (the (spec_fingerprints x alg))"

definition spec_candidate_distance :: "(algorithm \<rightharpoonup> string) \<Rightarrow> image_link \<Rightarrow> int" where
  "spec_candidate_distance q x =
     Min (set (map (spec_algorithm_distance q x) (spec_shared_algorithms q x)))"

definition spec_candidates :: "(algorithm \<rightharpoonup> string) \<Rightarrow> db \<Rightarrow> image_link list" where
  "spec_candidates q d = filter (\<lambda>x. spec_shared_algorithms q x \<noteq> []) (find_all d)"

section \<open>Listing and deleting\<close>

text \<open>\<open>delete_stored_image(image_id)\<close>: 404 when nothing was deleted.\<close>

definition delete_stored_image :: "string \<Rightarrow> db \<Rightarrow> (http_error + string) \<times> db" where
  "delete_stored_image i d =
     (let (deleted_count, d') = delete_one i d in
      if deleted_count = 0 then (Inl (HTTPException 404 ''Image not found''), d')
      else (Inr ''Image link deleted successfully'', d'))"

text \<open>
  \<open>get_stored_images()\<close> reads at most 1000 documents and formats them; of its response
  the model keeps the documents read and their number.
\<close>

definition get_stored_images :: "db \<Rightarrow> nat \<times> image_link list" where
  "get_stored_images d = (length (find_all d), find_all d)"

section \<open>Sequential executions\<close>

datatype request =
    LinkImage string datetime string upload_file
  | ScanImage upload_file int
  | GetStoredImages
  | DeleteStoredImage string

text \<open>The database after one request; scanning and listing leave it as it is.\<close>

fun handle :: "'img libs \<Rightarrow> request \<Rightarrow> db \<Rightarrow> db" where
  "handle L (LinkImage new_id now u file) d = snd (link_image_to_url L new_id now u file d)"
| "handle L (ScanImage file threshold) d = d"
| "handle L GetStoredImages d = d"
| "handle L (DeleteStoredImage i) d = snd (delete_stored_image i d)"

definition run :: "'img libs \<Rightarrow> request list \<Rightarrow> db" where
  "run L reqs = fold (handle L) reqs empty_db"

section \<open>Auxiliary notions for the proofs\<close>

text \<open>
  The binary numeral of \<open>v\<close> on exactly \<open>w\<close> digits, the value of a string of
  hexadecimal digits read from the left, and the strings made of such digits only.
\<close>

definition bit_char :: "bool \<Rightarrow> char" where
  "bit_char b = (if b then CHR ''1'' else CHR ''0'')"

fun fixed_bin :: "nat \<Rightarrow> nat \<Rightarrow> string" where
  "fixed_bin 0 v = []"
| "fixed_bin (Suc w) v = fixed_bin w (v div 2) @ [bit_char (v mod 2 = 1)]"

definition hex_value_from :: "nat \<Rightarrow> string \<Rightarrow> nat" where
  "hex_value_from acc s = fold (\<lambda>c a. 16 * a + the (hex_digit_value c)) s acc"

definition all_hex :: "string \<Rightarrow> bool" where
  "all_hex s = list_all (\<lambda>c. hex_digit_value c \<noteq> None) s"


text \<open>
  The invariant of the collection: no two documents with the same \<open>file_hash\<close>; and
  the number of documents with a given one.
\<close>

definition unique_checksums :: "db \<Rightarrow> bool" where
  "unique_checksums d = distinct (map file_hash (image_links d))"

definition count_checksum :: "string \<Rightarrow> db \<Rightarrow> nat" where
  "count_checksum h d = length (filter (\<lambda>x. file_hash x = h) (image_links d))"

text \<open>The document that \<open>link_image_to_url\<close> builds for a new image.\<close>

definition new_link :: "'img result \<Rightarrow> string \<Rightarrow> datetime \<Rightarrow> string \<Rightarrow> upload_file \<Rightarrow> image_link" where
  "new_link result new_id now u file =
     \<lparr> link_id = new_id,
       link_filename = filename_or_unknown (filename file),
       url = u,
       file_hash = res_file_hash result,
       ahash = hashes result Ahash,
       phash = hashes result Phash,
       dhash = hashes result Dhash,
       whash = hashes result Whash,
       content_type = res_content_type result,
       file_size = res_file_size result,
       image_width = fst (image_size result),
       image_height = snd (image_size result),
       created_at = now,
       updated_at = None \<rparr>"

text \<open>
  An instance of the libraries for the examples: every non-empty upload is sniffed as a
  PNG, it decodes when its bytes read as a hexadecimal number, and its four hashes and
  its digest are its own bytes.
\<close>

definition toy_libs :: "string libs" where
  "toy_libs =
     \<lparr> magic_from_buffer = (\<lambda>b. if b = [] then None else Some ''image/png''),
       image_open = (\<lambda>b. if py_int16 b = None then Inl ''cannot identify image file'' else Inr b),
       image_mode = (\<lambda>i. ''RGB''),
       image_convert_rgb = Inr,
       image_size_of = (\<lambda>i. (8, 8)),
       image_thumbnail = Inr,
       imagehash_str = (\<lambda>alg i. Inr i),
       sha256_hexdigest = (\<lambda>b. b) \<rparr>"

text \<open>
  The invariant of the loop of \<open>scan_image_for_url\<close>, for the candidates seen so far:
  without a best match all of them are beyond the threshold; a best match is made from a
  candidate within the threshold that is strictly nearer than every candidate before it
  and at least as near as every candidate after it.
\<close>

definition scan_inv ::
    "(algorithm \<rightharpoonup> string) \<Rightarrow> int \<Rightarrow> image_link list \<Rightarrow> match_info option \<times> int option \<Rightarrow> bool" where
  "scan_inv q t cands st =
     (case fst st of
        None \<Rightarrow> snd st = None \<and> (\<forall>y \<in> set cands. t < spec_candidate_distance q y)
      | Some m \<Rightarrow>
          (\<exists>pre x post.
             cands = pre @ x # post \<and>
             snd st = Some (spec_candidate_distance q x) \<and>
             m = make_match x (spec_candidate_distance q x) (algorithm_used m) \<and>
             spec_candidate_distance q x \<le> t \<and>
             (\<forall>y \<in> set pre. spec_candidate_distance q x < spec_candidate_distance q y) \<and>
             (\<forall>y \<in> set post. spec_candidate_distance q x \<le> spec_candidate_distance q y) \<and>
             algorithm_used m \<in> set (spec_shared_algorithms q x) \<and>
             spec_algorithm_distance q x (algorithm_used m) = spec_candidate_distance q x))"

text \<open>Two uploads, what the validator returns for the first, and a collection holding it.\<close>

definition toy_file :: upload_file where
  "toy_file = \<lparr> filename = Some ''a.png'', content = ''ff00'' \<rparr>"

definition toy_bad_file :: upload_file where
  "toy_bad_file = \<lparr> filename = Some ''z.png'', content = ''zz'' \<rparr>"

definition toy_result :: "string result" where
  "toy_result =
     \<lparr> res_image = ''ff00'',
       hashes = [Ahash \<mapsto> ''ff00'', Phash \<mapsto> ''ff00'', Dhash \<mapsto> ''ff00'', Whash \<mapsto> ''ff00''],
       res_file_hash = ''ff00'',
       res_content_type = ''image/png'',
       res_file_size = 4,
       image_size = (8, 8) \<rparr>"

definition toy_db :: db where
  "toy_db = insert_one (new_link toy_result ''id1'' 10 ''http://a'' toy_file) empty_db"

text \<open>
  A query whose hashes differ from the stored ones in one bit, what the validator returns
  for it, and the match a scan with it finds in the collection above.
\<close>

definition toy_near_file :: upload_file where
  "toy_near_file = \<lparr> filename = Some ''n.png'', content = ''ff01'' \<rparr>"

definition toy_near_result :: "string result" where
  "toy_near_result =
     \<lparr> res_image = ''ff01'',
       hashes = [Ahash \<mapsto> ''ff01'', Phash \<mapsto> ''ff01'', Dhash \<mapsto> ''ff01'', Whash \<mapsto> ''ff01''],
       res_file_hash = ''ff01'',
       res_content_type = ''image/png'',
       res_file_size = 4,
       image_size = (8, 8) \<rparr>"






section \<open>Evaluating the distance on literals\<close>

lemma bin_digits_0 [simp]: "bin_digits 0 = []"
  by (simp add: bin_digits.simps)

lemma bin_digits_pos:
  "0 < n \<Longrightarrow> bin_digits n = bin_digits (n div 2) @ [if n mod 2 = 0 then CHR ''0'' else CHR ''1'']"
  by (subst bin_digits.simps) simp

lemma bin_digits_1 [simp]: "bin_digits 1 = ''1''" "bin_digits (Suc 0) = ''1''"
  by (simp_all add: bin_digits_pos)

lemma bin_digits_Bit0 [simp]: "bin_digits (numeral (Num.Bit0 k)) = bin_digits (numeral k) @ ''0''"
  by (subst bin_digits_pos) simp_all

lemma bin_digits_Bit1 [simp]: "bin_digits (numeral (Num.Bit1 k)) = bin_digits (numeral k) @ ''1''"
  by (subst bin_digits_pos) simp_all

lemma replicate_num: "replicate (numeral k) x = x # replicate (pred_numeral k) x"
  by (simp add: numeral_eq_Suc)

lemmas distance_eval =
  calculate_similarity_def to_bin_def py_int16_def hex_digit_value_def py_isspace_def
  py_bin_def py_zfill_def count_diff_def replicate_num


section \<open>Properties of the distance\<close>

lemma count_diff_sym: "count_diff xs ys = count_diff ys xs"
  unfolding count_diff_def
  by (induction xs arbitrary: ys) (case_tac ys; simp)+

lemma count_diff_same: "count_diff xs xs = 0"
  unfolding count_diff_def by (induction xs) simp_all

lemma calculate_similarity_nonneg: "0 \<le> calculate_similarity a b"
  by (simp add: calculate_similarity_def split: option.splits)

lemma calculate_similarity_sym: "calculate_similarity a b = calculate_similarity b a"
  by (simp add: calculate_similarity_def count_diff_sym split: option.splits)

lemma calculate_similarity_refl: "py_int16 x \<noteq> None \<Longrightarrow> calculate_similarity x x = 0"
  by (auto simp: calculate_similarity_def to_bin_def count_diff_same split: option.splits)


subsection \<open>Codes made of hexadecimal digits\<close>

lemma hex_digit_chars:
  assumes "hex_digit_value c = Some d"
  shows "\<not> py_isspace c" "c \<noteq> CHR ''+''" "c \<noteq> CHR ''-''" "c \<noteq> CHR ''_''"
    "c \<noteq> CHR ''x''" "c \<noteq> CHR ''X''" "d < 16"
  using assms
  by (auto simp: hex_digit_value_def py_isspace_def Let_def split: if_splits)

lemma scan_digits_all_hex:
  "all_hex s \<Longrightarrow> scan_digits False acc s = Some (hex_value_from acc s, [])"
proof (induction s arbitrary: acc)
  case Nil
  then show ?case by (simp add: hex_value_from_def)
next
  case (Cons c s)
  then obtain d where d: "hex_digit_value c = Some d" by (auto simp: all_hex_def)
  from Cons have "all_hex s" by (simp add: all_hex_def)
  with Cons.IH d hex_digit_chars(4)[OF d] show ?case
    by (simp add: hex_value_from_def)
qed

lemma skip_0x_all_hex: "all_hex s \<Longrightarrow> skip_0x s = s"
proof (cases s rule: skip_0x.cases)
  case (1 a b r)
  assume "all_hex s"
  with 1 obtain d where "hex_digit_value b = Some d" by (auto simp: all_hex_def)
  from hex_digit_chars(5,6)[OF this] 1 show ?thesis by simp
qed simp_all

lemma py_int16_all_hex:
  assumes "all_hex s" "s \<noteq> []"
  shows "py_int16 s = Some (int (hex_value_from 0 s))"
proof -
  from assms obtain c r where s: "s = c # r" by (cases s) auto
  with assms obtain d where d: "hex_digit_value c = Some d" by (auto simp: all_hex_def)
  note ch = hex_digit_chars[OF d]
  have s1: "dropWhile py_isspace s = s" using s ch(1) by simp
  show ?thesis
    unfolding py_int16_def s1 Let_def
    using s ch(2,3,4) skip_0x_all_hex[OF assms(1)] scan_digits_all_hex[OF assms(1), of 0]
    by simp
qed

lemma fixed_bin_0: "fixed_bin w 0 = replicate w (CHR ''0'')"
  by (induction w) (simp_all add: bit_char_def replicate_append_same)

lemma length_fixed_bin [simp]: "length (fixed_bin w v) = w"
  by (induction w arbitrary: v) simp_all

lemma pad_bin_digits:
  "v < 2 ^ w \<Longrightarrow> replicate (w - length (bin_digits v)) (CHR ''0'') @ bin_digits v = fixed_bin w v"
proof (induction w arbitrary: v)
  case 0
  then show ?case by simp
next
  case (Suc w)
  show ?case
  proof (cases "v = 0")
    case True
    then show ?thesis using fixed_bin_0[of "Suc w"] by simp
  next
    case False
    then have pos: "0 < v" by simp
    from Suc.prems have "v div 2 < 2 ^ w" by auto
    from Suc.IH[OF this] show ?thesis
      by (simp add: bin_digits_pos[OF pos] bit_char_def)
  qed
qed

lemma length_bin_digits:
  assumes "v < 2 ^ w"
  shows "length (bin_digits v) \<le> w"
proof -
  have "length (replicate (w - length (bin_digits v)) (CHR ''0'') @ bin_digits v)
          = length (fixed_bin w v)"
    by (simp only: pad_bin_digits[OF assms])
  then show ?thesis by simp
qed

lemma bin_digits_first: "bin_digits v = c # r \<Longrightarrow> c = CHR ''0'' \<or> c = CHR ''1''"
proof (induction v arbitrary: c r rule: bin_digits.induct)
  case (1 n)
  show ?case
  proof (cases "n = 0")
    case True
    with 1 show ?thesis by simp
  next
    case False
    then have eq: "bin_digits n = bin_digits (n div 2) @ [if n mod 2 = 0 then CHR ''0'' else CHR ''1'']"
      by (simp add: bin_digits_pos)
    show ?thesis
    proof (cases "bin_digits (n div 2)")
      case Nil
      with eq 1(2) show ?thesis by (auto split: if_splits)
    next
      case (Cons c' r')
      with eq 1(2) have "c = c'" by simp
      with 1(1)[OF False Cons] show ?thesis by simp
    qed
  qed
qed

lemma zfill_bin:
  assumes "v < 2 ^ w" "0 < w"
  shows "py_zfill w (drop 2 (py_bin (int v))) = fixed_bin w v"
proof (cases "v = 0")
  case True
  with assms(2) show ?thesis
    by (cases w) (simp_all add: py_bin_def py_zfill_def fixed_bin_0 bit_char_def replicate_append_same)
next
  case False
  then have d: "drop 2 (py_bin (int v)) = bin_digits v" by (simp add: py_bin_def)
  from False obtain c r where cr: "bin_digits v = c # r"
    by (cases "bin_digits v") (simp_all add: bin_digits_pos)
  from bin_digits_first[OF cr] have c: "c \<noteq> CHR ''+''" "c \<noteq> CHR ''-''" by auto
  have len: "length (bin_digits v) \<le> w" by (rule length_bin_digits[OF assms(1)])
  have "py_zfill w (bin_digits v) = replicate (w - length (bin_digits v)) (CHR ''0'') @ bin_digits v"
    using len c cr by (auto simp: py_zfill_def)
  with pad_bin_digits[OF assms(1)] d show ?thesis by simp
qed


lemma fixed_bin_split:
  "r < 2 ^ b \<Longrightarrow> fixed_bin (a + b) (q * 2 ^ b + r) = fixed_bin a q @ fixed_bin b r"
proof (induction b arbitrary: r)
  case 0
  then show ?case by simp
next
  case (Suc b)
  have d: "(q * 2 ^ Suc b + r) div 2 = q * 2 ^ b + r div 2"
    by simp
  have e: "q * 2 ^ Suc b + r = 2 * (q * 2 ^ b) + r"
    by simp
  have m: "(q * 2 ^ Suc b + r) mod 2 = r mod 2"
    unfolding e by (rule mod_mult_self4)
  from Suc.prems have "r div 2 < 2 ^ b" by auto
  from Suc.IH[OF this] show ?case
    by (simp only: add_Suc_right fixed_bin.simps d m append_assoc)
qed

lemma fixed_bin_4:
  assumes "d < 16"
  shows "fixed_bin (w + 4) (16 * q + d) = fixed_bin w q @ fixed_bin 4 d"
  using fixed_bin_split[of d 4 w q] assms by (simp add: mult.commute)

lemma fixed_bin_nibble: "fixed_bin 4 d = map bit_char (spec_nibble d)"
proof -
  have "fixed_bin (Suc (Suc (Suc (Suc 0)))) d = map bit_char (spec_nibble d)"
    by (simp add: spec_nibble_def div_mult2_eq[symmetric])
  then show ?thesis by (simp add: numeral_eq_Suc)
qed

lemma hex_value_from_snoc:
  "hex_value_from acc (s @ [c]) = 16 * hex_value_from acc s + the (hex_digit_value c)"
  by (simp add: hex_value_from_def)

lemma hex_value_bound: "all_hex s \<Longrightarrow> hex_value_from 0 s < 16 ^ length s"
proof (induction s rule: rev_induct)
  case Nil
  then show ?case by (simp add: hex_value_from_def)
next
  case (snoc c s)
  then obtain d where d: "hex_digit_value c = Some d" by (auto simp: all_hex_def)
  from snoc have "hex_value_from 0 s < 16 ^ length s" by (simp add: all_hex_def)
  with hex_digit_chars(7)[OF d] d show ?case
    by (simp add: hex_value_from_snoc)
qed

lemma spec_decode_snoc:
  "spec_decode (s @ [c]) =
     (case spec_decode s of None \<Rightarrow> None
      | Some bs \<Rightarrow> (case hex_digit_value c of None \<Rightarrow> None | Some d \<Rightarrow> Some (bs @ spec_nibble d)))"
  by (induction s) (auto split: option.splits)

lemma spec_decode_all_hex: "(spec_decode s \<noteq> None) = all_hex s"
  by (induction s) (auto simp: all_hex_def split: option.splits)

lemma fixed_bin_hex:
  "all_hex s \<Longrightarrow>
     spec_decode s = Some bs \<Longrightarrow> fixed_bin (4 * length s) (hex_value_from 0 s) = map bit_char bs"
proof (induction s arbitrary: bs rule: rev_induct)
  case Nil
  then show ?case by simp
next
  case (snoc c s)
  from snoc.prems(1) obtain d where d: "hex_digit_value c = Some d" and hs: "all_hex s"
    by (auto simp: all_hex_def)
  from hs obtain bs' where bs': "spec_decode s = Some bs'"
    using spec_decode_all_hex[of s] by auto
  with snoc.prems(2) d have bs: "bs = bs' @ spec_nibble d" by (simp add: spec_decode_snoc)
  have lt: "d < 16" by (rule hex_digit_chars(7)[OF d])
  have "fixed_bin (4 * length s + 4) (16 * hex_value_from 0 s + d)
          = fixed_bin (4 * length s) (hex_value_from 0 s) @ fixed_bin 4 d"
    by (rule fixed_bin_4[OF lt])
  with snoc.IH[OF hs bs'] bs d show ?case
    by (simp add: hex_value_from_snoc fixed_bin_nibble add.commute)
qed

lemma to_bin_hex:
  assumes "spec_hex_bits s = Some bs"
  shows "to_bin s = Some (map bit_char bs)"
proof -
  from assms have ne: "s \<noteq> []" and dec: "spec_decode s = Some bs"
    by (auto simp: spec_hex_bits_def split: if_splits)
  then have ah: "all_hex s" using spec_decode_all_hex[of s] by auto
  have "(2::nat) ^ (4 * length s) = (2 ^ 4) ^ length s" by (rule power_mult)
  then have p: "(2::nat) ^ (length s * 4) = 16 ^ length s" by (simp add: mult.commute)
  have lt: "hex_value_from 0 s < 2 ^ (length s * 4)"
    unfolding p by (rule hex_value_bound[OF ah])
  have pos: "0 < length s * 4" using ne by simp
  show ?thesis
    using zfill_bin[OF lt pos] fixed_bin_hex[OF ah dec] py_int16_all_hex[OF ah ne]
    by (simp add: to_bin_def mult.commute)
qed

lemma count_diff_bits: "count_diff (map bit_char xs) (map bit_char ys) = spec_hamming xs ys"
  by (induction xs ys rule: spec_hamming.induct) (auto simp: count_diff_def bit_char_def)

lemma length_spec_decode: "spec_decode s = Some bs \<Longrightarrow> length bs = 4 * length s"
  by (induction s arbitrary: bs) (auto simp: spec_nibble_def split: option.splits)

lemma spec_hamming_zero: "length xs = length ys \<Longrightarrow> (spec_hamming xs ys = 0) = (xs = ys)"
  by (induction xs ys rule: list_induct2) auto

lemma calculate_similarity_hex:
  assumes "length a = length b" "spec_hex_bits a = Some xs" "spec_hex_bits b = Some ys"
  shows "calculate_similarity a b = int (spec_hamming xs ys)"
  using assms by (simp add: calculate_similarity_def to_bin_hex count_diff_bits)

lemma spec_hex_bits_length: "spec_hex_bits s = Some bs \<Longrightarrow> length bs = 4 * length s"
  by (auto simp: spec_hex_bits_def length_spec_decode split: if_splits)

lemma calculate_similarity_unparsed:
  "py_int16 a = None \<or> py_int16 b = None \<Longrightarrow> calculate_similarity a b = 64"
  by (auto simp: calculate_similarity_def to_bin_def split: option.splits)

lemma bits_ff00: "spec_hex_bits ''ff00'' =
    Some [True, True, True, True, True, True, True, True,
          False, False, False, False, False, False, False, False]"
  by (simp add: spec_hex_bits_def hex_digit_value_def spec_nibble_def)

lemma bits_0f01: "spec_hex_bits ''0f01'' =
    Some [False, False, False, False, True, True, True, True,
          False, False, False, False, False, False, False, True]"
  by (simp add: spec_hex_bits_def hex_digit_value_def spec_nibble_def)

subsection \<open>The three cases of the distance\<close>

text \<open>
  What the distance is on well-formed input. For all codes \<open>a\<close> and \<open>b\<close>: when
  their lengths differ the distance is 64; when \<open>int(\<cdot>, 16)\<close> rejects one of them the
  distance is 64; when both are non-empty strings of hexadecimal digits of the same
  length \<open>n\<close>, each decodes to \<open>4n\<close> bits and the distance is the number of positions
  where the two bit sequences differ.
\<close>

theorem distance_cases:
  "(length a \<noteq> length b \<longrightarrow> calculate_similarity a b = 64) \<and>
   (py_int16 a = None \<or> py_int16 b = None \<longrightarrow> calculate_similarity a b = 64) \<and>
   (length a = length b \<and> spec_hex_bits a = Some xs \<and> spec_hex_bits b = Some ys \<longrightarrow>
      length xs = 4 * length a \<and> length ys = 4 * length b \<and>
      calculate_similarity a b = int (spec_hamming xs ys))"
proof (intro conjI impI)
  assume "length a \<noteq> length b"
  then show "calculate_similarity a b = 64" by (simp add: calculate_similarity_def)
next
  assume "py_int16 a = None \<or> py_int16 b = None"
  then show "calculate_similarity a b = 64" by (rule calculate_similarity_unparsed)
next
  assume h: "length a = length b \<and> spec_hex_bits a = Some xs \<and> spec_hex_bits b = Some ys"
  then show "length xs = 4 * length a" using spec_hex_bits_length[of a xs] by simp
  from h show "length ys = 4 * length b" using spec_hex_bits_length[of b ys] by simp
  from h show "calculate_similarity a b = int (spec_hamming xs ys)"
    by (simp add: calculate_similarity_hex)
qed

text \<open>
  The three cases at concrete codes: different lengths, a code that is not a number, and
  two four-digit codes that differ in five bits.
\<close>

theorem distance_cases_witness:
  "calculate_similarity ''ff0'' ''0f01'' = 64 \<and>
   calculate_similarity ''zz00'' ''0f01'' = 64 \<and>
   calculate_similarity ''ff00'' ''0f01'' = 5"
proof -
  have 1: "length ''ff0'' \<noteq> length ''0f01''" by simp
  have 2: "py_int16 ''zz00'' = None \<or> py_int16 ''0f01'' = None"
    by (simp add: py_int16_def py_isspace_def hex_digit_value_def)
  have 3: "length ''ff00'' = length ''0f01''" by simp
  show ?thesis
    using distance_cases[of "''ff0''" "''0f01''"] 1
      distance_cases[of "''zz00''" "''0f01''"] 2
      distance_cases[where a = "''ff00''" and b = "''0f01''"
        and xs = "[True, True, True, True, True, True, True, True, False, False, False, False, False, False, False, False]"
        and ys = "[False, False, False, False, True, True, True, True, False, False, False, False, False, False, False, True]"]
      3 bits_ff00 bits_0f01
    by simp
qed

text \<open>
  Claim C2 puts two codes of equal length at distance 64 when one of them is not the
  expected hexadecimal encoding, and at their Hamming distance otherwise. At the codes
  \<open>-1\<close> and \<open>01\<close> the function does neither: \<open>int\<close> reads \<open>-1\<close> as the number minus
  one without raising, \<open>bin\<close> of it without its first two characters is \<open>b1\<close>, the
  zero-filled text \<open>000000b1\<close> is compared with \<open>00000001\<close> character by character,
  and the result is 1, where the distance of section 4.5 is 64.
\<close>

theorem distance_of_signed_code:
  "py_int16 ''-1'' = Some (- 1) \<and> py_int16 ''01'' = Some 1 \<and>
   to_bin ''-1'' = Some ''000000b1'' \<and> to_bin ''01'' = Some ''00000001'' \<and>
   calculate_similarity ''-1'' ''01'' = 1 \<and> spec_distance ''-1'' ''01'' = 64"
  by (simp add: distance_eval spec_distance_def spec_hex_bits_def)

subsection \<open>Reflexivity, symmetry, sign and zero\<close>

text \<open>
  Claim C3, as the code has it. The distance of a code to itself is 0 when
  \<open>int(\<cdot>, 16)\<close> accepts the code; the distance is symmetric and never negative for
  all strings; and for two codes made of hexadecimal digits the distance is 0 exactly
  when their bit sequences are the same.
\<close>

theorem distance_properties:
  "(py_int16 x \<noteq> None \<longrightarrow> calculate_similarity x x = 0) \<and>
   calculate_similarity x y = calculate_similarity y x \<and>
   0 \<le> calculate_similarity x y \<and>
   (spec_hex_bits x = Some xs \<and> spec_hex_bits y = Some ys \<longrightarrow>
      (calculate_similarity x y = 0 \<longleftrightarrow> xs = ys))"
proof (intro conjI impI)
  assume "py_int16 x \<noteq> None"
  then show "calculate_similarity x x = 0" by (rule calculate_similarity_refl)
next
  show "calculate_similarity x y = calculate_similarity y x" by (rule calculate_similarity_sym)
next
  show "0 \<le> calculate_similarity x y" by (rule calculate_similarity_nonneg)
next
  assume h: "spec_hex_bits x = Some xs \<and> spec_hex_bits y = Some ys"
  then have lx: "length xs = 4 * length x" and ly: "length ys = 4 * length y"
    using spec_hex_bits_length[of x xs] spec_hex_bits_length[of y ys] by simp_all
  show "calculate_similarity x y = 0 \<longleftrightarrow> xs = ys"
  proof (cases "length x = length y")
    case True
    with h have "calculate_similarity x y = int (spec_hamming xs ys)"
      by (simp add: calculate_similarity_hex)
    moreover from True lx ly have "length xs = length ys" by simp
    ultimately show ?thesis by (simp add: spec_hamming_zero)
  next
    case False
    then have "calculate_similarity x y = 64" by (simp add: calculate_similarity_def)
    moreover from False lx ly have "xs \<noteq> ys" by auto
    ultimately show ?thesis by simp
  qed
qed

text \<open>A code at distance 0 from itself, and two codes with different bits.\<close>

theorem distance_properties_witness:
  "calculate_similarity ''ff00'' ''ff00'' = 0 \<and>
   calculate_similarity ''ff00'' ''0f01'' \<noteq> 0"
proof -
  have 1: "py_int16 ''ff00'' \<noteq> None"
    by (simp add: py_int16_def py_isspace_def hex_digit_value_def)
  show ?thesis
    using distance_properties[of "''ff00''" "''ff00''"] 1
      distance_properties[where x = "''ff00''" and y = "''0f01''"
        and xs = "[True, True, True, True, True, True, True, True, False, False, False, False, False, False, False, False]"
        and ys = "[False, False, False, False, True, True, True, True, False, False, False, False, False, False, False, True]"]
      bits_ff00 bits_0f01
    by simp
qed

text \<open>
  Claim C3 as it is worded gives every code the distance 0 to itself. A code that
  \<open>int\<close> rejects is at distance 64 from every code, itself included.
\<close>

theorem distance_unparsed_counterexample:
  "py_int16 ''zz'' = None \<and> calculate_similarity ''zz'' ''zz'' = 64"
  by (simp add: distance_eval)

section \<open>The validator, the collection and linking\<close>

subsection \<open>The validator\<close>

lemma validate_file_hash:
  "validate_and_process_image L file = Inr result \<Longrightarrow>
     res_file_hash result = sha256_hexdigest L (content file)"
  by (auto simp: validate_and_process_image_def load_image_def Let_def
      split: if_splits option.splits sum.splits)

lemma validate_content_only:
  "content f2 = content f1 \<Longrightarrow>
     validate_and_process_image L f2 = validate_and_process_image L f1"
  by (simp add: validate_and_process_image_def)

subsection \<open>The collection\<close>

lemma map_update_first:
  "(\<And>x. g (f x) = g x) \<Longrightarrow> map g (update_first P f xs) = map g xs"
  by (induction xs) simp_all

lemma length_update_first [simp]: "length (update_first P f xs) = length xs"
  by (induction xs) simp_all

lemma update_first_nth:
  "find P xs = Some x \<Longrightarrow>
     \<exists>i < length xs. xs ! i = x \<and> P x \<and> (\<forall>j < i. \<not> P (xs ! j)) \<and>
       update_first P f xs = xs[i := f x]"
proof (induction xs)
  case Nil
  then show ?case by simp
next
  case (Cons a xs)
  show ?case
  proof (cases "P a")
    case True
    with Cons.prems have "a = x" by simp
    with True have "(a # xs) ! 0 = x \<and> P x \<and> (\<forall>j < 0. \<not> P ((a # xs) ! j)) \<and>
        update_first P f (a # xs) = (a # xs)[0 := f x]"
      by simp
    then show ?thesis by blast
  next
    case False
    with Cons.prems have "find P xs = Some x" by simp
    from Cons.IH[OF this] obtain i where i: "i < length xs" "xs ! i = x" "P x"
      "\<forall>j < i. \<not> P (xs ! j)" "update_first P f xs = xs[i := f x]"
      by blast
    have "\<forall>j < Suc i. \<not> P ((a # xs) ! j)"
    proof (intro allI impI)
      fix j assume "j < Suc i"
      with False i(4) show "\<not> P ((a # xs) ! j)" by (cases j) simp_all
    qed
    with False i have "Suc i < length (a # xs) \<and> (a # xs) ! Suc i = x \<and> P x \<and>
        (\<forall>j < Suc i. \<not> P ((a # xs) ! j)) \<and>
        update_first P f (a # xs) = (a # xs)[Suc i := f x]"
      by simp
    then show ?thesis by blast
  qed
qed

lemma set_remove_first: "set (remove_first P xs) \<subseteq> set xs"
  by (induction xs) auto

lemma distinct_map_remove_first:
  "distinct (map g xs) \<Longrightarrow> distinct (map g (remove_first P xs))"
proof (induction xs)
  case Nil
  then show ?case by simp
next
  case (Cons a xs)
  then show ?case using set_remove_first[of P xs] by auto
qed

lemma find_one_None: "find_one h d = None \<Longrightarrow> h \<notin> set (map file_hash (image_links d))"
  by (auto simp: find_one_def find_None_iff)

lemma find_one_Some: "find_one h d = Some x \<Longrightarrow> x \<in> set (image_links d) \<and> file_hash x = h"
  by (auto simp: find_one_def find_Some_iff)

subsection \<open>Linking\<close>

lemma link_failed:
  "validate_and_process_image L file = Inl e \<Longrightarrow>
     link_image_to_url L new_id now u file d = (Inl e, d)"
  by (simp add: link_image_to_url_def)

lemma link_updated:
  assumes "validate_and_process_image L file = Inr result"
    and "find_one (res_file_hash result) d = Some existing"
  shows "link_image_to_url L new_id now u file d =
    (Inr \<lparr> status = ''updated'',
           message = ''Updated URL for existing image: '' @ str_filename (filename file),
           image_id = link_id existing, resp_url = u, resp_hashes = None \<rparr>,
     update_one (res_file_hash result) u now d)"
  using assms by (simp add: link_image_to_url_def)

lemma link_created:
  assumes "validate_and_process_image L file = Inr result"
    and "find_one (res_file_hash result) d = None"
  shows "link_image_to_url L new_id now u file d =
    (Inr \<lparr> status = ''created'',
           message = ''Successfully linked '' @ str_filename (filename file) @ '' to '' @ u,
           image_id = new_id, resp_url = u, resp_hashes = Some (hashes result) \<rparr>,
     insert_one (new_link result new_id now u file) d)"
  using assms by (simp add: link_image_to_url_def new_link_def Let_def)

lemma unique_link:
  "unique_checksums d \<Longrightarrow> unique_checksums (snd (link_image_to_url L new_id now u file d))"
proof (cases "validate_and_process_image L file")
  case (Inl e)
  assume "unique_checksums d"
  then show ?thesis by (simp add: link_failed[OF Inl])
next
  case (Inr result)
  assume u: "unique_checksums d"
  show ?thesis
  proof (cases "find_one (res_file_hash result) d")
    case None
    from find_one_None[OF None] u show ?thesis
      by (simp add: link_created[OF Inr None] insert_one_def unique_checksums_def new_link_def)
  next
    case (Some existing)
    from u show ?thesis
      by (simp add: link_updated[OF Inr Some] update_one_def unique_checksums_def map_update_first)
  qed
qed

lemma unique_delete:
  "unique_checksums d \<Longrightarrow> unique_checksums (snd (delete_stored_image i d))"
  by (simp add: delete_stored_image_def delete_one_def unique_checksums_def
      distinct_map_remove_first split: prod.splits)

lemma unique_handle: "unique_checksums d \<Longrightarrow> unique_checksums (handle L r d)"
  by (cases r) (simp_all add: unique_link unique_delete)

lemma unique_fold:
  "unique_checksums d \<Longrightarrow> unique_checksums (fold (handle L) reqs d)"
  by (induction reqs arbitrary: d) (simp_all add: unique_handle)

lemma distinct_count_le1:
  "distinct (map g xs) \<Longrightarrow> length (filter (\<lambda>y. g y = h) xs) \<le> 1"
proof (induction xs)
  case Nil
  then show ?case by simp
next
  case (Cons a xs)
  show ?case
  proof (cases "g a = h")
    case True
    with Cons.prems have "\<forall>y \<in> set xs. g y \<noteq> h" by (auto simp: image_iff)
    then have "filter (\<lambda>y. g y = h) xs = []" by (simp add: filter_empty_conv)
    with True show ?thesis by simp
  next
    case False
    with Cons show ?thesis by simp
  qed
qed

lemma unique_count: "unique_checksums d \<Longrightarrow> count_checksum h d \<le> 1"
  using distinct_count_le1[of file_hash "image_links d" h]
  by (simp add: unique_checksums_def count_checksum_def)

subsection \<open>The examples\<close>

lemma toy_valid: "validate_and_process_image toy_libs toy_file = Inr toy_result"
  by (simp add: validate_and_process_image_def load_image_def compute_hashes_def toy_libs_def
      toy_file_def toy_result_def max_file_size_def max_dimension_def allowed_mime_types_def
      py_int16_def py_isspace_def hex_digit_value_def Let_def)

lemma toy_near_valid: "validate_and_process_image toy_libs toy_near_file = Inr toy_near_result"
  by (simp add: validate_and_process_image_def load_image_def compute_hashes_def toy_libs_def
      toy_near_file_def toy_near_result_def max_file_size_def max_dimension_def
      allowed_mime_types_def py_int16_def py_isspace_def hex_digit_value_def Let_def)

lemma toy_invalid:
  "validate_and_process_image toy_libs toy_bad_file =
     Inl (HTTPException 400 ''Invalid image file: cannot identify image file'')"
  by (simp add: validate_and_process_image_def load_image_def compute_hashes_def toy_libs_def
      toy_bad_file_def max_file_size_def max_dimension_def allowed_mime_types_def
      py_int16_def py_isspace_def hex_digit_value_def Let_def)

lemma toy_db_find:
  "find_one (res_file_hash toy_result) toy_db =
     Some (new_link toy_result ''id1'' 10 ''http://a'' toy_file)"
  by (simp add: toy_db_def find_one_def insert_one_def empty_db_def new_link_def toy_result_def)

lemma find_append_new: "find P xs = None \<Longrightarrow> P x \<Longrightarrow> find P (xs @ [x]) = Some x"
  by (induction xs) (simp_all split: if_splits)

lemma update_first_append_new:
  "find P xs = None \<Longrightarrow> P x \<Longrightarrow> update_first P f (xs @ [x]) = xs @ [f x]"
  by (induction xs) (simp_all split: if_splits)

lemma find_one_inserted:
  "find_one h d = None \<Longrightarrow> file_hash x = h \<Longrightarrow> find_one h (insert_one x d) = Some x"
  by (simp add: find_one_def insert_one_def find_append_new)

lemma find_one_reinserted:
  "find_one h d = None \<Longrightarrow> file_hash x = h \<Longrightarrow>
     find_one h (update_one h u now (insert_one x d)) = Some (x\<lparr>url := u, updated_at := Some now\<rparr>)"
  by (simp add: find_one_def insert_one_def update_one_def update_first_append_new find_append_new)

lemma count_update_one: "count_checksum h (update_one h' u now d) = count_checksum h d"
proof -
  have "map file_hash (image_links (update_one h' u now d)) = map file_hash (image_links d)"
    by (simp add: update_one_def map_update_first)
  then have "filter (\<lambda>y. y = h) (map file_hash (image_links (update_one h' u now d)))
      = filter (\<lambda>y. y = h) (map file_hash (image_links d))" by simp
  then have "length (filter ((\<lambda>y. y = h) \<circ> file_hash) (image_links (update_one h' u now d)))
      = length (filter ((\<lambda>y. y = h) \<circ> file_hash) (image_links d))"
    unfolding filter_map by (metis length_map)
  then show ?thesis by (simp add: count_checksum_def comp_def)
qed

lemma count_insert_one:
  "count_checksum h (insert_one x d) = count_checksum h d + (if file_hash x = h then 1 else 0)"
  by (simp add: count_checksum_def insert_one_def)

lemma count_zero: "(count_checksum h d = 0) = (find_one h d = None)"
  by (auto simp: count_checksum_def find_one_def find_None_iff filter_empty_conv)

section \<open>Properties of linking\<close>

text \<open>
  Claim C4. For a valid upload, whose checksum is the digest of its bytes,
  \<open>link_image_to_url\<close> sends exactly one write to the collection. When the collection
  holds a document with that checksum, the write is an update, the response says
  \<open>updated\<close> and carries the id of the first document with that checksum, and the
  number of documents is unchanged. When the collection holds no document with that
  checksum, the write is an insert of a new document with the generated id, the given
  URL and that checksum, and the response says \<open>created\<close> with that id; linking the
  same upload again, with any other URL, then answers \<open>updated\<close> with the same id,
  the collection is the old one followed by the inserted document with the second URL,
  and the two calls have sent an insert and an update.
\<close>

theorem link_single_write:
  assumes "validate_and_process_image L file = Inr result"
  shows "res_file_hash result = sha256_hexdigest L (content file) \<and>
         ((\<exists>x \<in> set (image_links d). file_hash x = res_file_hash result) \<longrightarrow>
            (\<exists>i < length (image_links d).
               file_hash (image_links d ! i) = res_file_hash result \<and>
               (\<forall>j < i. file_hash (image_links d ! j) \<noteq> res_file_hash result) \<and>
               (\<exists>resp. link_image_to_url L new_id now u file d =
                         (Inr resp, update_one (res_file_hash result) u now d) \<and>
                       status resp = ''updated'' \<and>
                       image_id resp = link_id (image_links d ! i) \<and>
                       resp_url resp = u)) \<and>
            writes (snd (link_image_to_url L new_id now u file d)) =
              writes d @ [UpdateOne (res_file_hash result) u now] \<and>
            length (image_links (snd (link_image_to_url L new_id now u file d))) =
              length (image_links d)) \<and>
         ((\<forall>x \<in> set (image_links d). file_hash x \<noteq> res_file_hash result) \<longrightarrow>
            (\<exists>resp. link_image_to_url L new_id now u file d =
                      (Inr resp, insert_one (new_link result new_id now u file) d) \<and>
                    status resp = ''created'' \<and> image_id resp = new_id \<and> resp_url resp = u) \<and>
            link_id (new_link result new_id now u file) = new_id \<and>
            url (new_link result new_id now u file) = u \<and>
            file_hash (new_link result new_id now u file) = res_file_hash result \<and>
            writes (snd (link_image_to_url L new_id now u file d)) =
              writes d @ [InsertOne (new_link result new_id now u file)] \<and>
            image_links (snd (link_image_to_url L new_id now u file d)) =
              image_links d @ [new_link result new_id now u file] \<and>
            (\<exists>resp2. fst (link_image_to_url L new_id2 now2 u2 file
                             (snd (link_image_to_url L new_id now u file d))) = Inr resp2 \<and>
                     status resp2 = ''updated'' \<and> image_id resp2 = new_id) \<and>
            image_links (snd (link_image_to_url L new_id2 now2 u2 file
                                (snd (link_image_to_url L new_id now u file d)))) =
              image_links d @ [(new_link result new_id now u file)\<lparr>url := u2, updated_at := Some now2\<rparr>] \<and>
            writes (snd (link_image_to_url L new_id2 now2 u2 file
                           (snd (link_image_to_url L new_id now u file d)))) =
              writes d @ [InsertOne (new_link result new_id now u file),
                          UpdateOne (res_file_hash result) u2 now2])"
proof (intro conjI impI)
  show "res_file_hash result = sha256_hexdigest L (content file)"
    by (rule validate_file_hash[OF assms])
next
  assume ex: "\<exists>x \<in> set (image_links d). file_hash x = res_file_hash result"
  then have "find_one (res_file_hash result) d \<noteq> None"
    by (auto simp: find_one_def find_None_iff)
  then obtain existing where f: "find_one (res_file_hash result) d = Some existing" by auto
  note l = link_updated[OF assms f, of new_id now u]
  from f have ff: "find (\<lambda>x. file_hash x = res_file_hash result) (image_links d) = Some existing"
    by (simp add: find_one_def)
  from update_first_nth[OF ff, of id] obtain i where
    i: "i < length (image_links d)" "image_links d ! i = existing"
       "file_hash existing = res_file_hash result"
       "\<forall>j < i. file_hash (image_links d ! j) \<noteq> res_file_hash result"
    by blast
  have "file_hash (image_links d ! i) = res_file_hash result \<and>
        (\<forall>j < i. file_hash (image_links d ! j) \<noteq> res_file_hash result) \<and>
        (\<exists>resp. link_image_to_url L new_id now u file d =
                         (Inr resp, update_one (res_file_hash result) u now d) \<and>
                       status resp = ''updated'' \<and>
                       image_id resp = link_id (image_links d ! i) \<and>
                       resp_url resp = u)"
    using i by (simp add: l)
  with i(1) show "\<exists>i < length (image_links d).
               file_hash (image_links d ! i) = res_file_hash result \<and>
               (\<forall>j < i. file_hash (image_links d ! j) \<noteq> res_file_hash result) \<and>
               (\<exists>resp. link_image_to_url L new_id now u file d =
                         (Inr resp, update_one (res_file_hash result) u now d) \<and>
                       status resp = ''updated'' \<and>
                       image_id resp = link_id (image_links d ! i) \<and>
                       resp_url resp = u)"
    by blast
  show "writes (snd (link_image_to_url L new_id now u file d)) =
              writes d @ [UpdateOne (res_file_hash result) u now]"
    by (simp add: l update_one_def)
  show "length (image_links (snd (link_image_to_url L new_id now u file d))) =
              length (image_links d)"
    by (simp add: l update_one_def)
next
  assume nx: "\<forall>x \<in> set (image_links d). file_hash x \<noteq> res_file_hash result"
  then have f: "find_one (res_file_hash result) d = None"
    by (auto simp: find_one_def find_None_iff)
  then have fl: "find (\<lambda>x. file_hash x = res_file_hash result) (image_links d) = None"
    by (simp add: find_one_def)
  note l = link_created[OF assms f, of new_id now u]
  have h: "file_hash (new_link result new_id now u file) = res_file_hash result"
    by (simp add: new_link_def)
  have i: "link_id (new_link result new_id now u file) = new_id"
    by (simp add: new_link_def)
  note f1 = find_one_inserted[OF f h]
  note l2 = link_updated[OF assms f1, of new_id2 now2 u2]
  show "\<exists>resp. link_image_to_url L new_id now u file d =
                      (Inr resp, insert_one (new_link result new_id now u file) d) \<and>
                    status resp = ''created'' \<and> image_id resp = new_id \<and> resp_url resp = u"
    by (simp add: l)
  show "link_id (new_link result new_id now u file) = new_id" by (rule i)
  show "url (new_link result new_id now u file) = u" by (simp add: new_link_def)
  show "file_hash (new_link result new_id now u file) = res_file_hash result" by (rule h)
  show "writes (snd (link_image_to_url L new_id now u file d)) =
              writes d @ [InsertOne (new_link result new_id now u file)]"
    by (simp add: l insert_one_def)
  show "image_links (snd (link_image_to_url L new_id now u file d)) =
              image_links d @ [new_link result new_id now u file]"
    by (simp add: l insert_one_def)
  show "\<exists>resp2. fst (link_image_to_url L new_id2 now2 u2 file
                             (snd (link_image_to_url L new_id now u file d))) = Inr resp2 \<and>
                     status resp2 = ''updated'' \<and> image_id resp2 = new_id"
    by (simp add: l l2 i)
  show "image_links (snd (link_image_to_url L new_id2 now2 u2 file
                                (snd (link_image_to_url L new_id now u file d)))) =
              image_links d @ [(new_link result new_id now u file)\<lparr>url := u2, updated_at := Some now2\<rparr>]"
    by (simp add: l l2) (simp add: update_one_def insert_one_def update_first_append_new[OF fl h])
  show "writes (snd (link_image_to_url L new_id2 now2 u2 file
                           (snd (link_image_to_url L new_id now u file d)))) =
              writes d @ [InsertOne (new_link result new_id now u file),
                          UpdateOne (res_file_hash result) u2 now2]"
    by (simp add: l l2) (simp add: update_one_def insert_one_def)
qed

text \<open>
  Into a collection holding one image: another image is created under the new id, the
  same image is updated under the stored id.
\<close>

theorem link_single_write_witness:
  "status (projr (fst (link_image_to_url toy_libs ''id2'' 20 ''http://b'' toy_near_file toy_db)))
     = ''created'' \<and>
   image_id (projr (fst (link_image_to_url toy_libs ''id2'' 20 ''http://b'' toy_near_file toy_db)))
     = ''id2'' \<and>
   status (projr (fst (link_image_to_url toy_libs ''id3'' 30 ''http://c'' toy_file toy_db)))
     = ''updated'' \<and>
   image_id (projr (fst (link_image_to_url toy_libs ''id3'' 30 ''http://c'' toy_file toy_db)))
     = ''id1''"
proof -
  have docs: "image_links toy_db = [new_link toy_result ''id1'' 10 ''http://a'' toy_file]"
    by (simp add: toy_db_def insert_one_def empty_db_def)
  have fh: "file_hash (new_link toy_result ''id1'' 10 ''http://a'' toy_file) = ''ff00''"
    by (simp add: new_link_def toy_result_def)
  have li: "link_id (new_link toy_result ''id1'' 10 ''http://a'' toy_file) = ''id1''"
    by (simp add: new_link_def)
  have a: "\<forall>x \<in> set (image_links toy_db). file_hash x \<noteq> res_file_hash toy_near_result"
    by (simp add: docs fh toy_near_result_def)
  have rh: "res_file_hash toy_result = ''ff00''" by (simp add: toy_result_def)
  have b: "\<exists>x \<in> set (image_links toy_db). file_hash x = res_file_hash toy_result"
    by (simp add: docs fh rh)
  from link_single_write[OF toy_near_valid, of toy_db "''id2''" 20 "''http://b''",
      THEN conjunct2, THEN conjunct2, THEN mp, OF a, THEN conjunct1]
  have c: "status (projr (fst (link_image_to_url toy_libs ''id2'' 20 ''http://b'' toy_near_file toy_db)))
             = ''created'' \<and>
           image_id (projr (fst (link_image_to_url toy_libs ''id2'' 20 ''http://b'' toy_near_file toy_db)))
             = ''id2''"
    by auto
  from link_single_write[OF toy_valid, of toy_db "''id3''" 30 "''http://c''"] b
  obtain i where i: "i < length (image_links toy_db)"
    "\<exists>resp. link_image_to_url toy_libs ''id3'' 30 ''http://c'' toy_file toy_db =
              (Inr resp, update_one (res_file_hash toy_result) ''http://c'' 30 toy_db) \<and>
            status resp = ''updated'' \<and> image_id resp = link_id (image_links toy_db ! i)"
    by blast
  from i(1) have "i = 0" by (simp add: docs)
  with i(2) have
    "status (projr (fst (link_image_to_url toy_libs ''id3'' 30 ''http://c'' toy_file toy_db)))
       = ''updated'' \<and>
     image_id (projr (fst (link_image_to_url toy_libs ''id3'' 30 ''http://c'' toy_file toy_db)))
       = ''id1''"
    by (auto simp: docs li)
  with c show ?thesis by simp
qed

text \<open>
  Claim C5. After any sequence of link, scan, list and delete requests on the empty
  collection no two documents have the same checksum, so every checksum belongs to at
  most one document; and every single request keeps it so.
\<close>

theorem unique_checksum_invariant:
  "unique_checksums (run L reqs) \<and> count_checksum h (run L reqs) \<le> 1 \<and>
   (unique_checksums d \<longrightarrow> unique_checksums (handle L r d))"
proof -
  have e: "unique_checksums empty_db" by (simp add: unique_checksums_def empty_db_def)
  have r: "unique_checksums (run L reqs)" unfolding run_def by (rule unique_fold[OF e])
  from r unique_count[OF r] unique_handle show ?thesis by blast
qed

text \<open>The invariant holds of the empty collection and after linking into it.\<close>

theorem unique_checksum_invariant_witness:
  "unique_checksums empty_db \<and>
   unique_checksums (handle toy_libs (LinkImage ''id1'' 10 ''http://a'' toy_file) empty_db)"
proof -
  have e: "unique_checksums empty_db" by (simp add: unique_checksums_def empty_db_def)
  with unique_checksum_invariant[of toy_libs "[]" "''''" empty_db
      "LinkImage ''id1'' 10 ''http://a'' toy_file"]
  show ?thesis by simp
qed

text \<open>
  Claim C6. When \<open>link_image_to_url\<close> finds a document with the checksum of a valid
  upload, the collection afterwards is the old one with that document, the first of
  that checksum, replaced by itself with new \<open>url\<close> and \<open>updated_at\<close>: every other
  field of it and every other document are as before.
\<close>

theorem link_update_frame:
  assumes "validate_and_process_image L file = Inr result"
    and "find_one (res_file_hash result) d = Some existing"
  shows "\<exists>i < length (image_links d).
           image_links d ! i = existing \<and>
           file_hash existing = res_file_hash result \<and>
           (\<forall>j < i. file_hash (image_links d ! j) \<noteq> res_file_hash result) \<and>
           image_links (snd (link_image_to_url L new_id now u file d)) =
             (image_links d)[i := existing\<lparr>url := u, updated_at := Some now\<rparr>]"
proof -
  from assms(2) have f: "find (\<lambda>x. file_hash x = res_file_hash result) (image_links d) = Some existing"
    by (simp add: find_one_def)
  from update_first_nth[OF f, of "\<lambda>x. x\<lparr>url := u, updated_at := Some now\<rparr>"]
  show ?thesis
    by (simp add: link_updated[OF assms] update_one_def)
qed


text \<open>Linking the same bytes with another URL changes two fields of the one document.\<close>

theorem link_update_frame_witness:
  "image_links (snd (link_image_to_url toy_libs ''id2'' 20 ''http://b'' toy_file toy_db)) =
     [(new_link toy_result ''id1'' 10 ''http://a'' toy_file)\<lparr>url := ''http://b'', updated_at := Some 20\<rparr>]"
  using link_update_frame[OF toy_valid toy_db_find, of "''id2''" 20 "''http://b''"]
  by (simp add: toy_db_def insert_one_def empty_db_def)

text \<open>
  Claim C7. When the validator fails, \<open>link_image_to_url\<close> fails with the same
  exception and the database, documents and writes, is the one before the call.
\<close>

theorem link_failure_leaves_store:
  "validate_and_process_image L file = Inl e \<Longrightarrow>
     link_image_to_url L new_id now u file d = (Inl e, d)"
  by (simp add: link_image_to_url_def)

text \<open>An upload that does not decode, linked into the empty collection.\<close>

theorem link_failure_leaves_store_witness:
  "link_image_to_url toy_libs ''id1'' 10 ''http://a'' toy_bad_file empty_db =
     (Inl (HTTPException 400 ''Invalid image file: cannot identify image file''), empty_db)"
  using link_failure_leaves_store[OF toy_invalid] by simp

text \<open>
  Claim C9. The checksum of a valid upload is the digest of the uploaded bytes as they
  came. An upload with the same bytes validates to the same result; after the first is
  linked a document with that digest is stored, linking the second answers \<open>updated\<close>
  and leaves the number of documents with that digest as it was, which is one when
  there was none before the first.
\<close>

theorem checksum_of_raw_bytes:
  assumes "validate_and_process_image L f1 = Inr result"
    and "content f2 = content f1"
  shows "res_file_hash result = sha256_hexdigest L (content f1) \<and>
         validate_and_process_image L f2 = Inr result \<and>
         (\<exists>x. find_one (sha256_hexdigest L (content f1))
                 (snd (link_image_to_url L id1 t1 u1 f1 d)) = Some x) \<and>
         (\<exists>resp. fst (link_image_to_url L id2 t2 u2 f2 (snd (link_image_to_url L id1 t1 u1 f1 d)))
                   = Inr resp \<and> status resp = ''updated'') \<and>
         count_checksum (sha256_hexdigest L (content f1))
             (snd (link_image_to_url L id2 t2 u2 f2 (snd (link_image_to_url L id1 t1 u1 f1 d)))) =
           count_checksum (sha256_hexdigest L (content f1)) (snd (link_image_to_url L id1 t1 u1 f1 d)) \<and>
         (count_checksum (sha256_hexdigest L (content f1)) d = 0 \<longrightarrow>
            count_checksum (sha256_hexdigest L (content f1))
             (snd (link_image_to_url L id2 t2 u2 f2 (snd (link_image_to_url L id1 t1 u1 f1 d)))) = 1)"
proof -
  let ?h = "sha256_hexdigest L (content f1)"
  let ?d1 = "snd (link_image_to_url L id1 t1 u1 f1 d)"
  let ?d2 = "snd (link_image_to_url L id2 t2 u2 f2 ?d1)"
  have h: "res_file_hash result = ?h" by (rule validate_file_hash[OF assms(1)])
  have v2: "validate_and_process_image L f2 = Inr result"
    using validate_content_only[OF assms(2), of L] assms(1) by simp
  have stored: "\<exists>x. find_one ?h ?d1 = Some x \<and> (count_checksum ?h d = 0 \<longrightarrow> count_checksum ?h ?d1 = 1)"
  proof (cases "find_one (res_file_hash result) d")
    case None
    have fh: "file_hash (new_link result id1 t1 u1 f1) = res_file_hash result"
      by (simp add: new_link_def)
    from find_one_inserted[OF None fh] None show ?thesis
      by (simp add: link_created[OF assms(1) None] h[symmetric] count_insert_one fh count_zero)
  next
    case (Some existing)
    from find_one_Some[OF Some] have P: "file_hash existing = res_file_hash result" by simp
    from Some have f: "find (\<lambda>x. file_hash x = res_file_hash result) (image_links d) = Some existing"
      by (simp add: find_one_def)
    have "count_checksum (res_file_hash result) (update_one (res_file_hash result) u1 t1 d) \<noteq> 0"
      using Some by (simp add: count_update_one count_zero)
    then have "find_one (res_file_hash result) (update_one (res_file_hash result) u1 t1 d) \<noteq> None"
      by (simp add: count_zero)
    moreover have "count_checksum (res_file_hash result) d \<noteq> 0" using Some by (simp add: count_zero)
    ultimately show ?thesis
      by (auto simp: link_updated[OF assms(1) Some] h[symmetric])
  qed
  then obtain x where x: "find_one (res_file_hash result) ?d1 = Some x" by (auto simp: h)
  note l2 = link_updated[OF v2 x, of id2 t2 u2]
  have c: "count_checksum ?h ?d2 = count_checksum ?h ?d1"
    by (simp add: l2 count_update_one)
  from h v2 stored l2 c show ?thesis by auto
qed

text \<open>The same bytes uploaded under two file names give one document.\<close>

theorem checksum_of_raw_bytes_witness:
  "count_checksum ''ff00''
     (snd (link_image_to_url toy_libs ''id2'' 20 ''http://b'' (toy_file\<lparr>filename := Some ''b.png''\<rparr>)
        (snd (link_image_to_url toy_libs ''id1'' 10 ''http://a'' toy_file empty_db)))) = 1"
proof -
  have c: "content (toy_file\<lparr>filename := Some ''b.png''\<rparr>) = content toy_file" by simp
  have z: "count_checksum (sha256_hexdigest toy_libs (content toy_file)) empty_db = 0"
    by (simp add: count_checksum_def empty_db_def)
  have s: "sha256_hexdigest toy_libs (content toy_file) = ''ff00''"
    by (simp add: toy_libs_def toy_file_def)
  from checksum_of_raw_bytes[OF toy_valid c, of "''id1''" 10 "''http://a''" empty_db "''id2''" 20 "''http://b''"] z
  show ?thesis unfolding s by simp
qed

section \<open>The loop of the scan\<close>

lemma distances_of_shared:
  "distances_of q x =
     map (\<lambda>alg. (alg, spec_algorithm_distance q x alg)) (spec_shared_algorithms q x)"
  by (simp add: distances_of_def List.map_filter_def distance_entry_def
      spec_shared_algorithms_def spec_algorithm_distance_def spec_fingerprints_def
      split: option.splits)

lemma py_min_from_le: "py_min_from b xs \<le> b \<and> (\<forall>y \<in> set xs. py_min_from b xs \<le> y)"
proof (induction xs arbitrary: b)
  case Nil
  then show ?case by simp
next
  case (Cons x xs)
  from Cons.IH[of "if x < b then x else b"] show ?case by (auto split: if_splits)
qed

lemma py_min_from_in: "py_min_from b xs \<in> set (b # xs)"
proof (induction xs arbitrary: b)
  case Nil
  then show ?case by simp
next
  case (Cons x xs)
  from Cons.IH[of "if x < b then x else b"] show ?case by (auto split: if_splits)
qed

lemma py_min_from_Min: "py_min_from b xs = Min (set (b # xs))"
proof -
  have "Min (set (b # xs)) = py_min_from b xs"
  proof (rule Min_eqI)
    show "finite (set (b # xs))" by simp
    show "\<And>y. y \<in> set (b # xs) \<Longrightarrow> py_min_from b xs \<le> y"
      using py_min_from_le[of b xs] by auto
    show "py_min_from b xs \<in> set (b # xs)" by (rule py_min_from_in)
  qed
  then show ?thesis by simp
qed

lemma py_min_key_from_in: "py_min_key_from e es \<in> set (e # es)"
proof (induction es arbitrary: e)
  case Nil
  then show ?case by simp
next
  case (Cons x xs)
  from Cons.IH[of "if snd x < snd e then x else e"] show ?case by (auto split: if_splits)
qed

lemma py_min_key_from_snd: "snd (py_min_key_from e es) = py_min_from (snd e) (map snd es)"
proof (induction es arbitrary: e)
  case Nil
  then show ?case by simp
next
  case (Cons x xs)
  show ?case by (simp add: Cons.IH if_distrib[of snd])
qed


lemma scan_step_not_shared:
  "spec_shared_algorithms q x = [] \<Longrightarrow> scan_step q t x st = st"
  by (simp add: scan_step_def distances_of_shared)

lemma scan_step_shared:
  assumes "spec_shared_algorithms q x \<noteq> []"
  shows "\<exists>alg \<in> set (spec_shared_algorithms q x).
           spec_algorithm_distance q x alg = spec_candidate_distance q x \<and>
           scan_step q t x st =
             (if spec_candidate_distance q x \<le> t \<and> below (spec_candidate_distance q x) (snd st)
              then (Some (make_match x (spec_candidate_distance q x) alg),
                    Some (spec_candidate_distance q x))
              else st)"
proof -
  from assms obtain a as where sh: "spec_shared_algorithms q x = a # as"
    by (cases "spec_shared_algorithms q x") auto
  let ?f = "\<lambda>alg. (alg, spec_algorithm_distance q x alg)"
  let ?e = "?f a" and ?es = "map ?f as"
  have d: "distances_of q x = ?e # ?es" by (simp add: distances_of_shared sh)
  have m: "py_min_from (snd ?e) (map snd ?es) = spec_candidate_distance q x"
    by (simp add: py_min_from_Min spec_candidate_distance_def sh comp_def)
  let ?k = "py_min_key_from ?e ?es"
  have "?k \<in> set (?e # ?es)" by (rule py_min_key_from_in)
  then have "?k \<in> ?f ` set (a # as)" by auto
  then obtain alg where alg: "alg \<in> set (a # as)" "?k = ?f alg" by blast
  have "snd ?k = spec_candidate_distance q x"
    using py_min_key_from_snd[of ?e ?es] m by simp
  with alg(2) have ad: "spec_algorithm_distance q x alg = spec_candidate_distance q x" by simp
  from alg(2) have fk: "fst ?k = alg" by simp
  have "scan_step q t x st =
      (if spec_candidate_distance q x \<le> t \<and> below (spec_candidate_distance q x) (snd st)
       then (Some (make_match x (spec_candidate_distance q x) alg),
             Some (spec_candidate_distance q x))
       else st)"
    unfolding scan_step_def d list.case Let_def m fk by simp
  with alg(1) ad sh show ?thesis by auto
qed

lemma scan_inv_step:
  assumes inv: "scan_inv q t cands st"
    and sh: "spec_shared_algorithms q x \<noteq> []"
  shows "scan_inv q t (cands @ [x]) (scan_step q t x st)"
proof -
  let ?c = "spec_candidate_distance q"
  from scan_step_shared[OF sh, of t st] obtain alg where
    alg: "alg \<in> set (spec_shared_algorithms q x)" "spec_algorithm_distance q x alg = ?c x"
    and step: "scan_step q t x st =
      (if ?c x \<le> t \<and> below (?c x) (snd st)
       then (Some (make_match x (?c x) alg), Some (?c x)) else st)"
    by blast
  have am: "algorithm_used (make_match x (?c x) alg) = alg" by (simp add: make_match_def)
  show ?thesis
  proof (cases "fst st")
    case None
    with inv have n: "snd st = None" "\<forall>y \<in> set cands. t < ?c y"
      by (simp_all add: scan_inv_def)
    show ?thesis
    proof (cases "?c x \<le> t")
      case True
      with n(1) have s: "scan_step q t x st = (Some (make_match x (?c x) alg), Some (?c x))"
        by (simp add: step below_def)
      have "cands @ [x] = cands @ x # []" by simp
      moreover have "\<forall>y \<in> set cands. ?c x < ?c y" using n(2) True by fastforce
      ultimately show ?thesis
        unfolding scan_inv_def s using True alg am
        by (simp only: fst_conv snd_conv option.case) (rule exI[of _ cands], rule exI[of _ x],
            rule exI[of _ "[]"], simp)
    next
      case False
      with step have s: "scan_step q t x st = st" by simp
      from False n None show ?thesis by (simp add: s scan_inv_def)
    qed
  next
    case (Some m)
    with inv obtain pre c post where
      p: "cands = pre @ c # post" "snd st = Some (?c c)"
         "m = make_match c (?c c) (algorithm_used m)" "?c c \<le> t"
         "\<forall>y \<in> set pre. ?c c < ?c y" "\<forall>y \<in> set post. ?c c \<le> ?c y"
         "algorithm_used m \<in> set (spec_shared_algorithms q c)"
         "spec_algorithm_distance q c (algorithm_used m) = ?c c"
      by (auto simp: scan_inv_def)
    show ?thesis
    proof (cases "?c x \<le> t \<and> ?c x < ?c c")
      case True
      with p(2) have s: "scan_step q t x st = (Some (make_match x (?c x) alg), Some (?c x))"
        by (simp add: step below_def)
      have "cands @ [x] = cands @ x # []" by simp
      moreover have "\<forall>y \<in> set cands. ?c x < ?c y"
        using p(1,5,6) True by fastforce
      ultimately show ?thesis
        unfolding scan_inv_def s using True alg am
        by (simp only: fst_conv snd_conv option.case) (rule exI[of _ cands], rule exI[of _ x],
            rule exI[of _ "[]"], simp)
    next
      case False
      with p(2) have s: "scan_step q t x st = st" by (auto simp: step below_def)
      from False p(4) have le: "?c c \<le> ?c x" by auto
      have "cands @ [x] = pre @ c # (post @ [x])" using p(1) by simp
      moreover have "\<forall>y \<in> set (post @ [x]). ?c c \<le> ?c y" using p(6) le by auto
      ultimately show ?thesis
        unfolding scan_inv_def s using Some p
        by (simp only: option.case) (rule exI[of _ pre], rule exI[of _ c],
            rule exI[of _ "post @ [x]"], simp)
    qed
  qed
qed

lemma scan_inv_fold:
  "scan_inv q t (filter (\<lambda>x. spec_shared_algorithms q x \<noteq> []) xs)
     (fold (scan_step q t) xs (None, None))"
proof (induction xs rule: rev_induct)
  case Nil
  then show ?case by (simp add: scan_inv_def)
next
  case (snoc x xs)
  show ?case
  proof (cases "spec_shared_algorithms q x = []")
    case True
    with snoc show ?thesis by (simp add: scan_step_not_shared)
  next
    case False
    with scan_inv_step[OF snoc False] show ?thesis by simp
  qed
qed

lemma scan_loop_inv:
  "scan_inv q t (spec_candidates q d) (scan_loop q t (find_all d))"
  unfolding spec_candidates_def scan_loop_def by (rule scan_inv_fold)

subsection \<open>A scan of the example collection\<close>

lemma toy_distance_near: "calculate_similarity ''ff01'' ''ff00'' = 1"
  by (simp add: distance_eval)

lemma toy_distance_same: "calculate_similarity ''ff00'' ''ff00'' = 0"
  by (simp add: distance_eval)

lemma toy_find_all: "find_all toy_db = [new_link toy_result ''id1'' 10 ''http://a'' toy_file]"
  by (simp add: find_all_def toy_db_def insert_one_def empty_db_def)



lemma toy_shared:
  "spec_shared_algorithms (hashes toy_near_result) (new_link toy_result ''id1'' 10 ''http://a'' toy_file)
     = [Dhash, Phash, Ahash, Whash]"
  "spec_shared_algorithms (hashes toy_result) (new_link toy_result ''id1'' 10 ''http://a'' toy_file)
     = [Dhash, Phash, Ahash, Whash]"
  by (simp_all add: spec_shared_algorithms_def spec_fingerprints_def new_link_def
      toy_result_def toy_near_result_def)

lemma toy_candidates:
  "spec_candidates (hashes toy_near_result) toy_db = [new_link toy_result ''id1'' 10 ''http://a'' toy_file]"
  by (simp add: spec_candidates_def toy_find_all toy_shared)

lemma toy_candidate_distance:
  "spec_candidate_distance (hashes toy_near_result) (new_link toy_result ''id1'' 10 ''http://a'' toy_file) = 1"
  by (simp add: spec_candidate_distance_def toy_shared spec_algorithm_distance_def
      spec_fingerprints_def)
     (simp add: new_link_def toy_result_def toy_near_result_def toy_distance_near)








section \<open>Properties of scanning\<close>






text \<open>
  Claim C10. With a negative threshold the scan of a valid query answers \<open>no_match\<close>,
  whatever the collection holds: no distance is negative.
\<close>

theorem scan_negative_threshold:
  assumes "threshold < 0"
    and "validate_and_process_image L file = Inr result"
  shows "scan_image_for_url L file threshold d =
           Inr \<lparr> scan_status = ''no_match'',
                 scan_message = ''No matching images found'',
                 match = None,
                 redirect_url = None,
                 total_stored_images = length (find_all d),
                 threshold_used = Some threshold \<rparr>"
proof -
  have "fst (scan_loop (hashes result) threshold (find_all d)) = None"
  proof (cases "fst (scan_loop (hashes result) threshold (find_all d))")
    case None
    then show ?thesis .
  next
    case (Some m)
    with scan_loop_inv[of "hashes result" threshold d]
    obtain x where t: "spec_candidate_distance (hashes result) x \<le> threshold"
      and a: "spec_algorithm_distance (hashes result) x (algorithm_used m)
                = spec_candidate_distance (hashes result) x"
      by (auto simp: scan_inv_def)
    have "0 \<le> spec_algorithm_distance (hashes result) x (algorithm_used m)"
      by (simp add: spec_algorithm_distance_def calculate_similarity_nonneg)
    with a t assms(1) show ?thesis by simp
  qed
  then show ?thesis by (simp add: scan_image_for_url_def assms(2))
qed

text \<open>A copy of the stored image, at distance 0, is not matched with threshold -1.\<close>

theorem scan_negative_threshold_witness:
  "scan_status (projr (scan_image_for_url toy_libs toy_file (- 1) toy_db)) = ''no_match'' \<and>
   calculate_similarity ''ff00'' ''ff00'' = 0"
proof -
  have n: "(- 1 :: int) < 0" by simp
  from scan_negative_threshold[OF n toy_valid, of toy_db] toy_distance_same
  show ?thesis by simp
qed

end
